theory Spec2Isabelle
  imports Complex_Main "HOL-Library.Sublist"
begin

section \<open>Data model\<close>

text \<open>
  The response row of the hook \<^verbatim>\<open>useDemoAppraisalData\<close>: the manager name (a NOT NULL
  text column), the nullable relationship, the thirteen nullable integer score columns and
  the three nullable structured feedback texts. The remaining columns (id, timestamps,
  response number, category comments) are read by none of the functions embedded here and
  are left out. A nullable column is an \<open>option\<close>; a score is an \<open>int\<close> as the
  column type says, with no range restriction, since the table has none.
\<close>

record AppraisalResponse =
  manager_name :: string
  relationship :: "string option"
  empowers_team_score :: "int option"
  final_say_score :: "int option"
  mentors_coaches_score :: "int option"
  effective_direction_score :: "int option"
  establishes_rapport_score :: "int option"
  sets_clear_goals_score :: "int option"
  open_to_ideas_score :: "int option"
  sense_of_urgency_score :: "int option"
  analyzes_change_score :: "int option"
  confidence_integrity_score :: "int option"
  patient_humble_score :: "int option"
  flat_collaborative_score :: "int option"
  approachable_score :: "int option"
  stop_doing :: "string option"
  start_doing :: "string option"
  continue_doing :: "string option"

text \<open>A response of the given manager with every nullable column null.\<close>

definition blank :: "string \<Rightarrow> AppraisalResponse" where
  "blank n = \<lparr> manager_name = n, relationship = None,
     empowers_team_score = None, final_say_score = None, mentors_coaches_score = None,
     effective_direction_score = None, establishes_rapport_score = None,
     sets_clear_goals_score = None, open_to_ideas_score = None,
     sense_of_urgency_score = None, analyzes_change_score = None,
     confidence_integrity_score = None, patient_humble_score = None,
     flat_collaborative_score = None, approachable_score = None,
     stop_doing = None, start_doing = None, continue_doing = None \<rparr>"

record FilterState =
  managers :: "string list"
  relationships :: "string list"
  scoreRange :: "rat \<times> rat"

text \<open>
  JavaScript truthiness of a nullable string: \<^verbatim>\<open>null\<close> and the empty string are falsy,
  every other string is truthy.
\<close>

fun truthy :: "string option \<Rightarrow> bool" where
  "truthy None = False"
| "truthy (Some s) = (s \<noteq> [])"

section \<open>Filter evaluator\<close>

text \<open>
  The callback of \<^verbatim>\<open>responses.filter\<close> in \<^verbatim>\<open>filteredResponses\<close>, with its two early
  \<^verbatim>\<open>return false\<close> branches in source order. \<^verbatim>\<open>includes\<close> on an array of strings is
  list membership. Inside the second test the relationship is truthy, hence not null.
\<close>

definition keep_response :: "FilterState \<Rightarrow> AppraisalResponse \<Rightarrow> bool" where
  "keep_response filters response =
     (if length (managers filters) > 0 \<and> \<not> List.member (managers filters) (manager_name response)
      then False
      else if length (relationships filters) > 0 \<and> truthy (relationship response)
                \<and> \<not> List.member (relationships filters) (the (relationship response))
      then False
      else True)"

definition filteredResponses :: "FilterState \<Rightarrow> AppraisalResponse list \<Rightarrow> AppraisalResponse list" where
  "filteredResponses filters responses = filter (keep_response filters) responses"

text \<open>
  The rule as the specification words it: keep a response iff (the manager set is empty or
  the name is in it) and (the relationship set is empty, or the relationship is in it, or
  the relationship is absent and the relationship filter is empty).
\<close>

definition keep_spec :: "FilterState \<Rightarrow> AppraisalResponse \<Rightarrow> bool" where
  "keep_spec filters response =
     ((managers filters = [] \<or> manager_name response \<in> set (managers filters)) \<and>
      (relationships filters = []
       \<or> (case relationship response of None \<Rightarrow> False | Some rel \<Rightarrow> rel \<in> set (relationships filters))
       \<or> (relationship response = None \<and> relationships filters = [])))"

section \<open>Numbers\<close>

text \<open>
  JavaScript numbers are modelled as exact rationals. Scores are integers, so the sums are
  the same in both; a quotient and its decimal rounding are exact here, where a double
  carries the quotient rounded to 53 bits. The decimal roundings computed below from
  concrete scores are the same in both.

  \<^verbatim>\<open>arr.reduce((a, b) => a + b, 0)\<close> is a left fold from 0.
\<close>

definition reduce_sum :: "rat list \<Rightarrow> rat" where
  "reduce_sum arr = foldl (\<lambda>a b. a + b) 0 arr"

text \<open>\<^verbatim>\<open>const avg = (arr) => arr.length ? arr.reduce(...) / arr.length : 0\<close>\<close>

definition avg :: "rat list \<Rightarrow> rat" where
  "avg arr = (if length arr \<noteq> 0 then reduce_sum arr / of_nat (length arr) else 0)"

text \<open>
  \<^verbatim>\<open>parseFloat(x.toFixed(d))\<close>: \<^verbatim>\<open>toFixed\<close> works on the magnitude, takes the integer
  \<open>n\<close> with \<open>n / 10^d\<close> nearest to it (the larger one on a tie) and restores the sign; from
  \<open>10^21\<close> on it prints the number itself.
\<close>

definition toFixed :: "nat \<Rightarrow> rat \<Rightarrow> rat" where
  "toFixed d x =
     (let y = \<bar>x\<bar>;
          r = (if 10 ^ 21 \<le> y then y else of_int \<lfloor>y * 10 ^ d + 1 / 2\<rfloor> / 10 ^ d)
      in if x < 0 then - r else r)"

text \<open>Collecting the non-null values of a list of nullable scores, in order.\<close>

fun non_null :: "int option list \<Rightarrow> rat list" where
  "non_null [] = []"
| "non_null (None # xs) = non_null xs"
| "non_null (Some s # xs) = of_int s # non_null xs"

section \<open>Manager summaries\<close>

record ManagerSummary =
  manager_name :: string
  total_responses :: nat
  avg_team_leadership :: rat
  avg_results_orientation :: rat
  avg_cultural_fit :: rat
  overall_score :: rat
  responses :: "AppraisalResponse list"

text \<open>
  \<^verbatim>\<open>managerGroups\<close> is a JavaScript \<^verbatim>\<open>Map\<close>, iterated in the order in which its keys were
  first set: an association list. One step of the grouping loop appends the response to
  the array of its manager, creating the entry at the end when the manager is new.
\<close>

fun group_push :: "AppraisalResponse \<Rightarrow> (string \<times> AppraisalResponse list) list
    \<Rightarrow> (string \<times> AppraisalResponse list) list" where
  "group_push response [] = [(AppraisalResponse.manager_name response, [response])]"
| "group_push response ((k, existing) # g) =
     (if k = AppraisalResponse.manager_name response then (k, existing @ [response]) # g
      else (k, existing) # group_push response g)"

definition managerGroups :: "AppraisalResponse list \<Rightarrow> (string \<times> AppraisalResponse list) list" where
  "managerGroups filtered = foldl (\<lambda>g response. group_push response g) [] filtered"

text \<open>The three fixed competency buckets, in the order the source lists the fields.\<close>

definition team_leadership_fields :: "AppraisalResponse \<Rightarrow> int option list" where
  "team_leadership_fields r = [empowers_team_score r, mentors_coaches_score r,
     effective_direction_score r, establishes_rapport_score r, sets_clear_goals_score r]"

definition results_orientation_fields :: "AppraisalResponse \<Rightarrow> int option list" where
  "results_orientation_fields r = [open_to_ideas_score r, sense_of_urgency_score r,
     analyzes_change_score r, final_say_score r]"

definition cultural_fit_fields :: "AppraisalResponse \<Rightarrow> int option list" where
  "cultural_fit_fields r = [confidence_integrity_score r, patient_humble_score r,
     flat_collaborative_score r, approachable_score r]"

definition teamLeadershipScores :: "AppraisalResponse list \<Rightarrow> rat list" where
  "teamLeadershipScores rs = concat (map (\<lambda>r. non_null (team_leadership_fields r)) rs)"

definition resultsOrientationScores :: "AppraisalResponse list \<Rightarrow> rat list" where
  "resultsOrientationScores rs = concat (map (\<lambda>r. non_null (results_orientation_fields r)) rs)"

definition culturalFitScores :: "AppraisalResponse list \<Rightarrow> rat list" where
  "culturalFitScores rs = concat (map (\<lambda>r. non_null (cultural_fit_fields r)) rs)"

text \<open>
  \<^verbatim>\<open>overallScore = avg([avgTeamLeadership, avgResultsOrientation, avgCulturalFit].filter(s => s > 0))\<close>
\<close>

definition overallScore :: "AppraisalResponse list \<Rightarrow> rat" where
  "overallScore rs = avg (filter (\<lambda>s. s > 0)
     [avg (teamLeadershipScores rs), avg (resultsOrientationScores rs), avg (culturalFitScores rs)])"

text \<open>The body of \<^verbatim>\<open>managerGroups.forEach\<close>: the summary pushed for one group.\<close>

definition summarize :: "string \<times> AppraisalResponse list \<Rightarrow> ManagerSummary" where
  "summarize g = (case g of (managerName, rs) \<Rightarrow>
     \<lparr> manager_name = managerName,
       total_responses = length rs,
       avg_team_leadership = toFixed 2 (avg (teamLeadershipScores rs)),
       avg_results_orientation = toFixed 2 (avg (resultsOrientationScores rs)),
       avg_cultural_fit = toFixed 2 (avg (culturalFitScores rs)),
       overall_score = toFixed 2 (overallScore rs),
       responses = rs \<rparr>)"

text \<open>
  \<^verbatim>\<open>summaries.sort((a, b) => b.overall_score - a.overall_score)\<close>: a stable sort,
  descending by overall score. \<open>sort_key\<close> is a stable insertion sort, ascending by its
  key, here the negated score.
\<close>

definition managerSummaries :: "AppraisalResponse list \<Rightarrow> ManagerSummary list" where
  "managerSummaries filtered =
     sort_key (\<lambda>m. - overall_score m) (map summarize (managerGroups filtered))"

section \<open>Competency scores\<close>

datatype score_key =
    K_empowers_team_score | K_final_say_score | K_mentors_coaches_score
  | K_effective_direction_score | K_establishes_rapport_score | K_sets_clear_goals_score
  | K_open_to_ideas_score | K_sense_of_urgency_score | K_analyzes_change_score
  | K_confidence_integrity_score | K_patient_humble_score | K_flat_collaborative_score
  | K_approachable_score

text \<open>The property read \<^verbatim>\<open>(r as any)[key]\<close> for the thirteen score keys.\<close>

fun score_of :: "score_key \<Rightarrow> AppraisalResponse \<Rightarrow> int option" where
  "score_of K_empowers_team_score r = empowers_team_score r"
| "score_of K_final_say_score r = final_say_score r"
| "score_of K_mentors_coaches_score r = mentors_coaches_score r"
| "score_of K_effective_direction_score r = effective_direction_score r"
| "score_of K_establishes_rapport_score r = establishes_rapport_score r"
| "score_of K_sets_clear_goals_score r = sets_clear_goals_score r"
| "score_of K_open_to_ideas_score r = open_to_ideas_score r"
| "score_of K_sense_of_urgency_score r = sense_of_urgency_score r"
| "score_of K_analyzes_change_score r = analyzes_change_score r"
| "score_of K_confidence_integrity_score r = confidence_integrity_score r"
| "score_of K_patient_humble_score r = patient_humble_score r"
| "score_of K_flat_collaborative_score r = flat_collaborative_score r"
| "score_of K_approachable_score r = approachable_score r"





subsection \<open>The exporters' recomputation\<close>





subsection \<open>The two views side by side\<close>





section \<open>Performance tiers in the exporters\<close>

text \<open>
  The ``Performance Tier'' column of the ranking sheet and of the ranking table of the
  document: the same conditional chain in both exporters.
\<close>

definition performance_tier :: "rat \<Rightarrow> string" where
  "performance_tier s =
     (if s \<ge> 7 / 2 then ''Exceptional''
      else if s \<ge> 3 then ''Strong''
      else if s \<ge> 5 / 2 then ''Developing''
      else ''Needs Improvement'')"

record TierRange =
  t_label :: string
  t_min :: rat
  t_max :: rat

record TierCount = TierRange +
  t_count :: nat
  t_managers :: string

definition ranges :: "TierRange list" where
  "ranges =
    [\<lparr> t_label = ''Exceptional (3.5-4.0)'', t_min = 7 / 2, t_max = 4 \<rparr>,
     \<lparr> t_label = ''Strong (3.0-3.49)'', t_min = 3, t_max = 349 / 100 \<rparr>,
     \<lparr> t_label = ''Developing (2.5-2.99)'', t_min = 5 / 2, t_max = 299 / 100 \<rparr>,
     \<lparr> t_label = ''Needs Improvement (2.0-2.49)'', t_min = 2, t_max = 249 / 100 \<rparr>,
     \<lparr> t_label = ''Critical (<2.0)'', t_min = 0, t_max = 199 / 100 \<rparr>]"

text \<open>\<^verbatim>\<open>names.join(', ')\<close>\<close>

fun join :: "string \<Rightarrow> string list \<Rightarrow> string" where
  "join sep [] = []"
| "join sep [x] = x"
| "join sep (x # y # xs) = x @ sep @ join sep (y # xs)"

definition in_range :: "TierRange \<Rightarrow> ManagerSummary \<Rightarrow> bool" where
  "in_range rg m = (overall_score m \<ge> t_min rg \<and> overall_score m \<le> t_max rg)"

definition getScoreDistribution :: "ManagerSummary list \<Rightarrow> TierCount list" where
  "getScoreDistribution ms =
     map (\<lambda>rg. \<lparr> t_label = t_label rg, t_min = t_min rg, t_max = t_max rg,
                 t_count = length (filter (in_range rg) ms),
                 t_managers = join '', ''
                   (map ManagerSummary.manager_name (filter (in_range rg) ms)) \<rparr>)
         ranges"

section \<open>Score distribution\<close>

definition scoreKeys :: "score_key list" where
  "scoreKeys =
    [K_empowers_team_score, K_mentors_coaches_score, K_effective_direction_score,
     K_establishes_rapport_score, K_sets_clear_goals_score, K_open_to_ideas_score,
     K_sense_of_urgency_score, K_analyzes_change_score, K_final_say_score,
     K_confidence_integrity_score, K_patient_humble_score, K_flat_collaborative_score,
     K_approachable_score]"

text \<open>
  The histogram object, with its keys in their own order. A key is the decimal string of
  an integer score and is represented by that integer.
  \<^verbatim>\<open>distribution[k] = (distribution[k] || 0) + 1\<close> adds one to an existing entry and
  creates a missing one with value 1.
\<close>

fun bump :: "int \<Rightarrow> (int \<times> nat) list \<Rightarrow> (int \<times> nat) list" where
  "bump k [] = [(k, 1)]"
| "bump k ((k', c) # d) = (if k' = k then (k', c + 1) # d else (k', c) # bump k d)"

definition count_score :: "(int \<times> nat) list \<Rightarrow> int option \<Rightarrow> (int \<times> nat) list" where
  "count_score distribution sc =
     (case sc of None \<Rightarrow> distribution
      | Some s \<Rightarrow> if s \<ge> 1 \<and> s \<le> 5 then bump s distribution else distribution)"

definition scoreDistribution :: "AppraisalResponse list \<Rightarrow> (int \<times> nat) list" where
  "scoreDistribution filtered =
     foldl (\<lambda>distribution r. foldl (\<lambda>d key. count_score d (score_of key r)) distribution scoreKeys)
       [(1, 0), (2, 0), (3, 0), (4, 0), (5, 0)] filtered"

text \<open>Every non-null score occurrence of the filtered set over the thirteen keys.\<close>

definition score_occurrences :: "AppraisalResponse list \<Rightarrow> int list" where
  "score_occurrences rs = concat (map (\<lambda>r. concat (map (\<lambda>key. case score_of key r of None \<Rightarrow> [] | Some s \<Rightarrow> [s]) scoreKeys)) rs)"

text \<open>
  For the proofs: the histogram object with given counts, and the non-null values of a list
  of nullable scores.
\<close>

definition hist :: "(int \<Rightarrow> nat) \<Rightarrow> (int \<times> nat) list" where
  "hist c = [(1, c 1), (2, c 2), (3, c 3), (4, c 4), (5, c 5)]"

definition occurrences :: "int option list \<Rightarrow> int list" where
  "occurrences vs = concat (map (\<lambda>v. case v of None \<Rightarrow> [] | Some s \<Rightarrow> [s]) vs)"

section \<open>Feedback themes\<close>

text \<open>
  Strings are sequences of ASCII characters. \<^verbatim>\<open>toLowerCase\<close> maps the letters A to Z to
  a to z; \<^verbatim>\<open>trim\<close> removes the white space characters (tab, line feed, vertical tab,
  form feed, carriage return, space) at both ends.
\<close>

definition lower_char :: "char \<Rightarrow> char" where
  "lower_char c = (let n = (of_char c :: nat) in if 65 \<le> n \<and> n \<le> 90 then char_of (n + 32) else c)"

definition toLowerCase :: "string \<Rightarrow> string" where
  "toLowerCase s = map lower_char s"

definition is_space :: "char \<Rightarrow> bool" where
  "is_space c = (let n = (of_char c :: nat) in (9 \<le> n \<and> n \<le> 13) \<or> n = 32)"

definition trim :: "string \<Rightarrow> string" where
  "trim s = rev (dropWhile is_space (rev (dropWhile is_space s)))"

record FeedbackThemes =
  stopDoing :: "string list"
  startDoing :: "string list"
  continueDoing :: "string list"

text \<open>
  The three \<^verbatim>\<open>if\<close> blocks of the loop body, each on the pair of the shared \<^verbatim>\<open>seen\<close> set
  and the three arrays built so far.
\<close>

definition visit_stop :: "AppraisalResponse \<Rightarrow> string set \<times> FeedbackThemes \<Rightarrow> string set \<times> FeedbackThemes" where
  "visit_stop r st = (case st of (seen, th) \<Rightarrow>
     if truthy (stop_doing r) then
       (let normalized = trim (toLowerCase (the (stop_doing r)))
        in if normalized \<notin> seen
           then (insert normalized seen, th\<lparr>stopDoing := stopDoing th @ [trim (the (stop_doing r))]\<rparr>)
           else (seen, th))
     else (seen, th))"

definition visit_start :: "AppraisalResponse \<Rightarrow> string set \<times> FeedbackThemes \<Rightarrow> string set \<times> FeedbackThemes" where
  "visit_start r st = (case st of (seen, th) \<Rightarrow>
     if truthy (start_doing r) then
       (let normalized = trim (toLowerCase (the (start_doing r)))
        in if normalized \<notin> seen
           then (insert normalized seen, th\<lparr>startDoing := startDoing th @ [trim (the (start_doing r))]\<rparr>)
           else (seen, th))
     else (seen, th))"

definition visit_continue :: "AppraisalResponse \<Rightarrow> string set \<times> FeedbackThemes \<Rightarrow> string set \<times> FeedbackThemes" where
  "visit_continue r st = (case st of (seen, th) \<Rightarrow>
     if truthy (continue_doing r) then
       (let normalized = trim (toLowerCase (the (continue_doing r)))
        in if normalized \<notin> seen
           then (insert normalized seen, th\<lparr>continueDoing := continueDoing th @ [trim (the (continue_doing r))]\<rparr>)
           else (seen, th))
     else (seen, th))"

definition visit :: "string set \<times> FeedbackThemes \<Rightarrow> AppraisalResponse \<Rightarrow> string set \<times> FeedbackThemes" where
  "visit st r = visit_continue r (visit_start r (visit_stop r st))"

definition feedbackThemes :: "AppraisalResponse list \<Rightarrow> FeedbackThemes" where
  "feedbackThemes filtered =
     snd (foldl visit ({}, \<lparr> stopDoing = [], startDoing = [], continueDoing = [] \<rparr>) filtered)"

subsection \<open>The extraction as the specification words it\<close>

datatype prompt = Stop | Start | Continue

fun field_of :: "prompt \<Rightarrow> AppraisalResponse \<Rightarrow> string option" where
  "field_of Stop r = stop_doing r"
| "field_of Start r = start_doing r"
| "field_of Continue r = continue_doing r"

fun themes_of :: "prompt \<Rightarrow> FeedbackThemes \<Rightarrow> string list" where
  "themes_of Stop th = stopDoing th"
| "themes_of Start th = startDoing th"
| "themes_of Continue th = continueDoing th"

text \<open>
  The entries in processing order: for each response in order its stop, start and continue
  texts, those that are present.
\<close>

definition entries_of :: "AppraisalResponse \<Rightarrow> (prompt \<times> string) list" where
  "entries_of r = concat (map (\<lambda>p. if truthy (field_of p r) then [(p, the (field_of p r))] else [])
                               [Stop, Start, Continue])"

definition entries :: "AppraisalResponse list \<Rightarrow> (prompt \<times> string) list" where
  "entries rs = concat (map entries_of rs)"

text \<open>The comparison key of an entry: its text in lower case, trimmed.\<close>

definition norm_key :: "prompt \<times> string \<Rightarrow> string" where
  "norm_key e = trim (toLowerCase (snd e))"


definition texts_of :: "prompt \<Rightarrow> (prompt \<times> string) list \<Rightarrow> string list" where
  "texts_of p es = map (\<lambda>e. trim (snd e)) (filter (\<lambda>e. fst e = p) es)"


text \<open>A field that is a non-empty string of white space only.\<close>

definition whitespace_only :: "string option \<Rightarrow> bool" where
  "whitespace_only v = (truthy v \<and> trim (the v) = [])"

text \<open>
  Responses built from an extraction's output: one response for each entry, carrying the
  entry in the field of its list, the stop entries first, then start, then continue.
\<close>

definition rebuild :: "FeedbackThemes \<Rightarrow> AppraisalResponse list" where
  "rebuild th =
     map (\<lambda>s. (blank [])\<lparr>stop_doing := Some s\<rparr>) (stopDoing th)
     @ map (\<lambda>s. (blank [])\<lparr>start_doing := Some s\<rparr>) (startDoing th)
     @ map (\<lambda>s. (blank [])\<lparr>continue_doing := Some s\<rparr>) (continueDoing th)"

subsection \<open>The pass as a recursion on the entries\<close>

text \<open>
  For the proofs: the loop threads the \<^verbatim>\<open>seen\<close> set through the entries; an entry
  whose key is in the set is skipped, any other is kept and its key added. The kept entries
  are appended to the three arrays, each text trimmed, by the field it came from.
\<close>

fun dedup :: "string set \<Rightarrow> (prompt \<times> string) list \<Rightarrow> (prompt \<times> string) list" where
  "dedup seen [] = []"
| "dedup seen (e # es) =
     (if norm_key e \<in> seen then dedup seen es else e # dedup (insert (norm_key e) seen) es)"

definition push_all :: "FeedbackThemes \<Rightarrow> (prompt \<times> string) list \<Rightarrow> FeedbackThemes" where
  "push_all th ks =
     \<lparr> stopDoing = stopDoing th @ texts_of Stop ks,
       startDoing = startDoing th @ texts_of Start ks,
       continueDoing = continueDoing th @ texts_of Continue ks \<rparr>"

definition entry_of :: "prompt \<Rightarrow> AppraisalResponse \<Rightarrow> (prompt \<times> string) list" where
  "entry_of p r = (if truthy (field_of p r) then [(p, the (field_of p r))] else [])"

text \<open>For the proofs: the non-empty texts of a list as entries of one field.\<close>

definition tagged :: "prompt \<Rightarrow> string list \<Rightarrow> (prompt \<times> string) list" where
  "tagged p ts = map (Pair p) (filter (\<lambda>t. t \<noteq> []) ts)"

section \<open>Example inputs\<close>


definition team :: "AppraisalResponse list" where
  "team =
    [(blank ''Alice'')\<lparr> empowers_team_score := Some 3, open_to_ideas_score := Some 4 \<rparr>,
     (blank ''Bob'')\<lparr> approachable_score := Some 5, final_say_score := Some 4 \<rparr>,
     (blank ''Alice'')\<lparr> relationship := Some ''Peer'', patient_humble_score := Some 1 \<rparr>]"


text \<open>A manager scored 1 and 2, and a manager scored 4 and 5.\<close>

definition low_high :: "AppraisalResponse list" where
  "low_high =
    [(blank ''Lee'')\<lparr> empowers_team_score := Some 1, mentors_coaches_score := Some 2 \<rparr>,
     (blank ''Max'')\<lparr> empowers_team_score := Some 4, mentors_coaches_score := Some 5 \<rparr>]"

text \<open>
  Two responses with two fields of white space only, and a text met twice in different
  casing and in different fields.
\<close>

definition blanks :: "AppraisalResponse list" where
  "blanks =
    [(blank ''Ann'')\<lparr> start_doing := Some '' '', continue_doing := Some ''Listening'' \<rparr>,
     (blank ''Ben'')\<lparr> stop_doing := Some ''  '', start_doing := Some ''listening '' \<rparr>]"

section \<open>Properties of the filter\<close>

lemma keep_response_iff:
  "keep_response fs r \<longleftrightarrow>
     (managers fs = [] \<or> AppraisalResponse.manager_name r \<in> set (managers fs)) \<and>
     (relationships fs = [] \<or> \<not> truthy (relationship r)
      \<or> the (relationship r) \<in> set (relationships fs))"
  by (auto simp: keep_response_def List.member_iff)

text \<open>
  C2, as stated, fails: with the relationship filter set to Peer, a response whose
  relationship is null is kept by the code, while the stated rule drops it (the
  relationship is not in the set, and the set is not empty).
\<close>

theorem filter_rule_counterexample:
  "filteredResponses \<lparr> managers = [], relationships = [''Peer''], scoreRange = (1, 4) \<rparr>
       [blank ''Alice'']
     = [blank ''Alice'']
   \<and> filter (keep_spec \<lparr> managers = [], relationships = [''Peer''], scoreRange = (1, 4) \<rparr>)
       [blank ''Alice'']
     = []"
  by (simp add: filteredResponses_def keep_response_def keep_spec_def blank_def)

text \<open>
  C2, amended: the filter keeps a response iff (the manager set is empty or the name is in
  it) and (the relationship set is empty, or the response's relationship is null or the
  empty string, or it is in the set). It returns a subsequence of its input, in input
  order, and is the identity when both sets are empty.
\<close>

theorem filter_rule:
  "filteredResponses fs rs =
     filter (\<lambda>r. (managers fs = [] \<or> AppraisalResponse.manager_name r \<in> set (managers fs)) \<and>
                 (relationships fs = [] \<or> \<not> truthy (relationship r)
                  \<or> the (relationship r) \<in> set (relationships fs))) rs
   \<and> subseq (filteredResponses fs rs) rs
   \<and> (managers fs = [] \<and> relationships fs = [] \<longrightarrow> filteredResponses fs rs = rs)"
proof (intro conjI)
  show "filteredResponses fs rs =
     filter (\<lambda>r. (managers fs = [] \<or> AppraisalResponse.manager_name r \<in> set (managers fs)) \<and>
                 (relationships fs = [] \<or> \<not> truthy (relationship r)
                  \<or> the (relationship r) \<in> set (relationships fs))) rs"
    unfolding filteredResponses_def by (rule filter_cong) (simp_all add: keep_response_iff)
  show "subseq (filteredResponses fs rs) rs"
    by (simp add: filteredResponses_def)
  show "managers fs = [] \<and> relationships fs = [] \<longrightarrow> filteredResponses fs rs = rs"
    by (simp add: filteredResponses_def keep_response_def)
qed

theorem filter_rule_witness:
  "filteredResponses \<lparr> managers = [], relationships = [], scoreRange = (1, 4) \<rparr>
     [blank ''Alice'', (blank ''Bob'')\<lparr>relationship := Some ''Peer''\<rparr>]
   = [blank ''Alice'', (blank ''Bob'')\<lparr>relationship := Some ''Peer''\<rparr>]"
  using filter_rule [of "\<lparr> managers = [], relationships = [], scoreRange = (1, 4) \<rparr>"
      "[blank ''Alice'', (blank ''Bob'')\<lparr>relationship := Some ''Peer''\<rparr>]"]
  by simp

section \<open>Grouping and counting\<close>


lemma managerGroups_snoc: "managerGroups (rs @ [r]) = group_push r (managerGroups rs)"
  by (simp add: managerGroups_def)

lemma managerGroups_Nil: "managerGroups [] = []"
  by (simp add: managerGroups_def)

lemma map_of_group_push:
  "map_of (group_push r g) k =
     (if k = AppraisalResponse.manager_name r
      then Some (case map_of g k of None \<Rightarrow> [r] | Some e \<Rightarrow> e @ [r])
      else map_of g k)"
  by (induction r g rule: group_push.induct) auto

lemma keys_group_push:
  "map fst (group_push r g) =
     (if AppraisalResponse.manager_name r \<in> set (map fst g) then map fst g
      else map fst g @ [AppraisalResponse.manager_name r])"
  by (induction r g rule: group_push.induct) auto

lemma distinct_keys_managerGroups: "distinct (map fst (managerGroups rs))"
  by (induction rs rule: rev_induct) (simp_all add: managerGroups_Nil managerGroups_snoc keys_group_push)

lemma map_of_managerGroups:
  "map_of (managerGroups rs) k =
     (if k \<in> AppraisalResponse.manager_name ` set rs
      then Some (filter (\<lambda>r. AppraisalResponse.manager_name r = k) rs) else None)"
proof (induction rs rule: rev_induct)
  case Nil
  show ?case by (simp add: managerGroups_Nil)
next
  case (snoc r rs)
  show ?case
  proof (cases "k = AppraisalResponse.manager_name r")
    case True
    have "filter (\<lambda>r'. AppraisalResponse.manager_name r' = k) rs = []"
      if "k \<notin> AppraisalResponse.manager_name ` set rs"
      using that by (auto simp: filter_empty_conv)
    moreover have "map_of (managerGroups rs) (AppraisalResponse.manager_name r) =
       (if k \<in> AppraisalResponse.manager_name ` set rs
        then Some (filter (\<lambda>r'. AppraisalResponse.manager_name r' = k) rs) else None)"
      using snoc.IH True by simp
    ultimately show ?thesis
      using True by (simp add: managerGroups_snoc map_of_group_push)
  next
    case False
    then show ?thesis
      by (simp add: managerGroups_snoc map_of_group_push snoc.IH)
  qed
qed

lemma group_members:
  assumes "(k, g) \<in> set (managerGroups rs)"
  shows "g = filter (\<lambda>r. AppraisalResponse.manager_name r = k) rs"
    and "k \<in> AppraisalResponse.manager_name ` set rs"
proof -
  have "map_of (managerGroups rs) k = Some g"
    using assms distinct_keys_managerGroups by (simp add: map_of_eq_Some_iff)
  then show "g = filter (\<lambda>r. AppraisalResponse.manager_name r = k) rs"
    and "k \<in> AppraisalResponse.manager_name ` set rs"
    by (simp_all add: map_of_managerGroups split: if_splits)
qed

lemma sum_lengths_group_push:
  "sum_list (map (\<lambda>p. length (snd p)) (group_push r g)) = Suc (sum_list (map (\<lambda>p. length (snd p)) g))"
  by (induction r g rule: group_push.induct) auto

lemma sum_lengths_managerGroups:
  "sum_list (map (\<lambda>p. length (snd p)) (managerGroups rs)) = length rs"
  by (induction rs rule: rev_induct) (simp_all add: managerGroups_Nil managerGroups_snoc sum_lengths_group_push)

lemma sum_list_insort_key:
  "sum_list (map h (insort_key f x xs)) = h x + sum_list (map h xs)" for h :: "'a \<Rightarrow> nat"
  by (induction xs) auto

lemma sum_list_sort_key:
  "sum_list (map h (sort_key f xs)) = sum_list (map h xs)" for h :: "'a \<Rightarrow> nat"
  by (induction xs) (simp_all add: sum_list_insort_key)

lemma distinct_map_insort_key:
  "distinct (map h (insort_key f x xs)) \<longleftrightarrow> h x \<notin> h ` set xs \<and> distinct (map h xs)"
  by (induction xs) (auto simp: set_insort_key)

lemma distinct_map_sort_key:
  "distinct (map h (sort_key f xs)) \<longleftrightarrow> distinct (map h xs)"
  by (induction xs) (simp_all add: distinct_map_insort_key)

lemma summarize_fields:
  "ManagerSummary.manager_name (summarize (k, g)) = k"
  "total_responses (summarize (k, g)) = length g"
  "responses (summarize (k, g)) = g"
  "overall_score (summarize (k, g)) = toFixed 2 (overallScore g)"
  "avg_team_leadership (summarize (k, g)) = toFixed 2 (avg (teamLeadershipScores g))"
  "avg_results_orientation (summarize (k, g)) = toFixed 2 (avg (resultsOrientationScores g))"
  "avg_cultural_fit (summarize (k, g)) = toFixed 2 (avg (culturalFitScores g))"
  by (simp_all add: summarize_def)

lemma in_managerSummaries:
  "m \<in> set (managerSummaries rs) \<longleftrightarrow> (\<exists>k g. (k, g) \<in> set (managerGroups rs) \<and> m = summarize (k, g))"
  by (auto simp: managerSummaries_def)

text \<open>
  C7: the total_responses of the manager summaries add up to the number of responses of the
  filtered set. Each summary carries exactly the responses with its manager name, counts
  them, and is not empty; no two summaries share a name, and every response's manager has a
  summary: each response is counted in exactly one group.
\<close>

theorem summary_counts:
  "sum_list (map total_responses (managerSummaries rs)) = length rs
   \<and> distinct (map ManagerSummary.manager_name (managerSummaries rs))
   \<and> (\<forall>m \<in> set (managerSummaries rs).
        responses m = filter (\<lambda>r. AppraisalResponse.manager_name r = ManagerSummary.manager_name m) rs
        \<and> total_responses m = length (responses m)
        \<and> total_responses m > 0)
   \<and> (\<forall>r \<in> set rs. \<exists>m \<in> set (managerSummaries rs).
        ManagerSummary.manager_name m = AppraisalResponse.manager_name r)"
proof (intro conjI ballI)
  have "map total_responses (map summarize (managerGroups rs)) = map (\<lambda>p. length (snd p)) (managerGroups rs)"
    by (simp add: summarize_def split_def)
  then show "sum_list (map total_responses (managerSummaries rs)) = length rs"
    by (simp add: managerSummaries_def sum_list_sort_key sum_lengths_managerGroups del: map_map)
  have "map ManagerSummary.manager_name (map summarize (managerGroups rs)) = map fst (managerGroups rs)"
    by (simp add: summarize_def split_def)
  then show "distinct (map ManagerSummary.manager_name (managerSummaries rs))"
    by (simp add: managerSummaries_def distinct_map_sort_key distinct_keys_managerGroups del: map_map)
next
  fix m assume "m \<in> set (managerSummaries rs)"
  then obtain k g where kg: "(k, g) \<in> set (managerGroups rs)" and m: "m = summarize (k, g)"
    by (auto simp: in_managerSummaries)
  note gm = group_members [OF kg]
  show "responses m = filter (\<lambda>r. AppraisalResponse.manager_name r = ManagerSummary.manager_name m) rs"
    using gm(1) by (simp add: m summarize_fields)
  show "total_responses m = length (responses m)"
    by (simp add: m summarize_fields)
  from gm(2) have "g \<noteq> []"
    unfolding gm(1) by (auto simp: filter_empty_conv)
  then show "total_responses m > 0"
    by (simp add: m summarize_fields)
next
  fix r assume r: "r \<in> set rs"
  then have "map_of (managerGroups rs) (AppraisalResponse.manager_name r)
      = Some (filter (\<lambda>r'. AppraisalResponse.manager_name r' = AppraisalResponse.manager_name r) rs)"
    by (simp add: map_of_managerGroups)
  then have "(AppraisalResponse.manager_name r, filter (\<lambda>r'. AppraisalResponse.manager_name r' = AppraisalResponse.manager_name r) rs)
      \<in> set (managerGroups rs)"
    by (rule map_of_SomeD)
  then have "summarize (AppraisalResponse.manager_name r, filter (\<lambda>r'. AppraisalResponse.manager_name r' = AppraisalResponse.manager_name r) rs)
      \<in> set (managerSummaries rs)"
    by (auto simp: in_managerSummaries)
  then show "\<exists>m \<in> set (managerSummaries rs). ManagerSummary.manager_name m = AppraisalResponse.manager_name r"
    by (rule rev_bexI) (simp add: summarize_fields)
qed

theorem summary_counts_witness:
  "map ManagerSummary.manager_name (managerSummaries team) = [''Bob'', ''Alice'']
   \<and> map total_responses (managerSummaries team) = [1, 2]
   \<and> sum_list (map total_responses (managerSummaries team)) = length team"
proof -
  have "map ManagerSummary.manager_name (managerSummaries team) = [''Bob'', ''Alice'']"
    and "map total_responses (managerSummaries team) = [1, 2]"
    by code_simp+
  then show ?thesis
    using summary_counts [of team] by simp
qed

section \<open>The overall score\<close>

lemma all_keys: "(\<forall>k. P k) \<longleftrightarrow> list_all P scoreKeys"
proof
  assume "\<forall>k. P k" then show "list_all P scoreKeys" by (simp add: list_all_iff)
next
  assume a: "list_all P scoreKeys"
  show "\<forall>k. P k"
  proof
    fix k show "P k" using a by (cases k) (simp_all add: scoreKeys_def)
  qed
qed















section \<open>Competency scores\<close>





section \<open>The exporters' competency view against the engine's\<close>






section \<open>Performance tiers\<close>

text \<open>
  C4: the code at a failing input. Max has overall score 4.5 and Lee 1.5. The tier column
  labels Lee ``Needs Improvement'' (its chain has no Critical branch) while the histogram
  counts Lee as Critical; the column labels Max ``Exceptional'' while the histogram, whose
  top range ends at 4.0, counts Max in no tier at all.
\<close>

theorem tier_mismatch:
  "map ManagerSummary.manager_name (managerSummaries low_high) = [''Max'', ''Lee'']
   \<and> map overall_score (managerSummaries low_high) = [9 / 2, 3 / 2]
   \<and> map (\<lambda>m. performance_tier (overall_score m)) (managerSummaries low_high)
       = [''Exceptional'', ''Needs Improvement'']
   \<and> map t_label (getScoreDistribution (managerSummaries low_high))
       = [''Exceptional (3.5-4.0)'', ''Strong (3.0-3.49)'', ''Developing (2.5-2.99)'',
          ''Needs Improvement (2.0-2.49)'', ''Critical (<2.0)'']
   \<and> map t_count (getScoreDistribution (managerSummaries low_high)) = [0, 0, 0, 0, 1]
   \<and> map t_managers (getScoreDistribution (managerSummaries low_high)) = ['''', '''', '''', '''', ''Lee'']"
  by code_simp

section \<open>Score distribution\<close>

lemma bump_hist:
  assumes "1 \<le> s" and "s \<le> 5"
  shows "bump s (hist c) = hist (c(s := c s + 1))"
proof -
  have "s = 1 \<or> s = 2 \<or> s = 3 \<or> s = 4 \<or> s = 5"
    using assms by arith
  then show ?thesis by (auto simp: hist_def)
qed

lemma count_score_hist:
  "count_score (hist c) v = hist (\<lambda>b. c b + count_list (occurrences [v]) b)"
proof (cases v)
  case None
  then show ?thesis by (simp add: count_score_def occurrences_def)
next
  case (Some s)
  show ?thesis
  proof (cases "1 \<le> s \<and> s \<le> 5")
    case True
    then have "count_score (hist c) v = hist (c(s := c s + 1))"
      by (simp add: count_score_def Some bump_hist)
    also have "\<dots> = hist (\<lambda>b. c b + count_list (occurrences [v]) b)"
      by (simp add: hist_def Some occurrences_def)
    finally show ?thesis .
  next
    case False
    then have "count_score (hist c) v = hist c"
      by (auto simp: count_score_def Some)
    also have "\<dots> = hist (\<lambda>b. c b + count_list (occurrences [v]) b)"
      using False by (auto simp: hist_def Some occurrences_def)
    finally show ?thesis .
  qed
qed

lemma occurrences_Cons: "occurrences (v # vs) = occurrences [v] @ occurrences vs"
  by (simp add: occurrences_def)

lemma count_list_append: "count_list (xs @ ys) b = count_list xs b + count_list ys b"
  by (induction xs) auto

lemma foldl_count_score:
  "foldl count_score (hist c) vs = hist (\<lambda>b. c b + count_list (occurrences vs) b)"
proof (induction vs arbitrary: c)
  case Nil
  show ?case by (simp add: occurrences_def)
next
  case (Cons v vs)
  have "foldl count_score (hist c) (v # vs)
      = hist (\<lambda>b. (c b + count_list (occurrences [v]) b) + count_list (occurrences vs) b)"
    by (simp add: count_score_hist Cons.IH)
  also have "\<dots> = hist (\<lambda>b. c b + count_list (occurrences (v # vs)) b)"
    by (subst (2) occurrences_Cons) (simp add: count_list_append add.assoc)
  finally show ?case .
qed

lemma score_occurrences_Cons:
  "score_occurrences (r # rs) = occurrences (map (\<lambda>key. score_of key r) scoreKeys) @ score_occurrences rs"
  by (simp add: score_occurrences_def occurrences_def map_concat comp_def del: concat_map_singleton)

lemma scoreDistribution_fold:
  "foldl (\<lambda>distribution r. foldl (\<lambda>d key. count_score d (score_of key r)) distribution scoreKeys)
      (hist c) rs
   = hist (\<lambda>b. c b + count_list (score_occurrences rs) b)"
proof (induction rs arbitrary: c)
  case Nil
  show ?case by (simp add: score_occurrences_def)
next
  case (Cons r rs)
  have inner: "foldl (\<lambda>d key. count_score d (score_of key r)) (hist c) scoreKeys
      = hist (\<lambda>b. c b + count_list (occurrences (map (\<lambda>key. score_of key r) scoreKeys)) b)"
    using foldl_count_score [of c "map (\<lambda>key. score_of key r) scoreKeys"]
    by (simp add: foldl_map)
  show ?case
    by (simp only: foldl_Cons inner Cons.IH score_occurrences_Cons count_list_append add.assoc)
qed

lemma scoreDistribution_hist:
  "scoreDistribution rs = hist (count_list (score_occurrences rs))"
proof -
  have "[(1, 0), (2, 0), (3, 0), (4, 0), (5, 0)] = hist (\<lambda>b. 0)"
    by (simp add: hist_def)
  then show ?thesis
    unfolding scoreDistribution_def by (simp only: scoreDistribution_fold) simp
qed

lemma in_range_count:
  "length (filter (\<lambda>s. 1 \<le> s \<and> s \<le> 5) xs)
     = count_list xs 1 + count_list xs 2 + count_list xs 3 + count_list xs 4 + count_list xs (5::int)"
  by (induction xs) auto

lemma score_occurrences_in_scale:
  assumes "\<forall>r\<in>set rs. \<forall>k s. score_of k r = Some s \<longrightarrow> 1 \<le> s \<and> s \<le> 5"
  shows "\<forall>s\<in>set (score_occurrences rs). 1 \<le> s \<and> s \<le> 5"
  using assms by (auto simp: score_occurrences_def split: option.splits)

text \<open>
  C8: the histogram has the buckets 1 to 5, each holding the number of occurrences of that
  value among the non-null scores of the thirteen keys over the filtered set; its values sum
  to the number of occurrences within 1 to 5 (values out of range are ignored), and when
  every non-null score is within 1 to 5 they sum to the number of all non-null occurrences.
\<close>

theorem score_distribution_sum:
  "scoreDistribution rs =
     [(1, count_list (score_occurrences rs) 1), (2, count_list (score_occurrences rs) 2),
      (3, count_list (score_occurrences rs) 3), (4, count_list (score_occurrences rs) 4),
      (5, count_list (score_occurrences rs) 5)]
   \<and> sum_list (map snd (scoreDistribution rs))
       = length (filter (\<lambda>s. 1 \<le> s \<and> s \<le> 5) (score_occurrences rs))
   \<and> ((\<forall>r\<in>set rs. \<forall>k s. score_of k r = Some s \<longrightarrow> 1 \<le> s \<and> s \<le> 5)
        \<longrightarrow> sum_list (map snd (scoreDistribution rs)) = length (score_occurrences rs))"
proof (intro conjI impI)
  show "scoreDistribution rs =
     [(1, count_list (score_occurrences rs) 1), (2, count_list (score_occurrences rs) 2),
      (3, count_list (score_occurrences rs) 3), (4, count_list (score_occurrences rs) 4),
      (5, count_list (score_occurrences rs) 5)]"
    by (simp add: scoreDistribution_hist hist_def)
  show s: "sum_list (map snd (scoreDistribution rs))
       = length (filter (\<lambda>s. 1 \<le> s \<and> s \<le> 5) (score_occurrences rs))"
    by (simp add: scoreDistribution_hist hist_def in_range_count)
  assume "\<forall>r\<in>set rs. \<forall>k s. score_of k r = Some s \<longrightarrow> 1 \<le> s \<and> s \<le> 5"
  then have "filter (\<lambda>s. 1 \<le> s \<and> s \<le> 5) (score_occurrences rs) = score_occurrences rs"
    using score_occurrences_in_scale by (simp add: filter_id_conv)
  with s show "sum_list (map snd (scoreDistribution rs)) = length (score_occurrences rs)"
    by simp
qed

theorem score_distribution_sum_witness:
  "scoreDistribution team = [(1, 1), (2, 0), (3, 1), (4, 2), (5, 1)]
   \<and> sum_list (map snd (scoreDistribution team)) = 5
   \<and> length (score_occurrences team) = 5"
proof -
  have h: "\<forall>r\<in>set team. \<forall>k s. score_of k r = Some s \<longrightarrow> 1 \<le> s \<and> s \<le> 5"
    by (simp add: team_def all_keys scoreKeys_def blank_def)
  have c: "map (count_list (score_occurrences team)) [1, 2, 3, 4, 5] = [1, 0, 1, 2, 1]"
    and l: "length (score_occurrences team) = 5"
    by code_simp+
  from score_distribution_sum [of team] h c l show ?thesis
    by simp
qed

lemma out_of_range_ignored:
  "scoreDistribution [(blank ''Ann'')\<lparr>approachable_score := Some 7, final_say_score := Some 0, patient_humble_score := Some 3\<rparr>]
     = [(1, 0), (2, 0), (3, 1), (4, 0), (5, 0)]"
  by code_simp

section \<open>Feedback themes\<close>

lemma entries_of_eq: "entries_of r = entry_of Stop r @ entry_of Start r @ entry_of Continue r"
  by (simp add: entries_of_def entry_of_def)

lemma texts_of_append: "texts_of p (a @ b) = texts_of p a @ texts_of p b"
  by (simp add: texts_of_def)

lemma push_all_Nil: "push_all th [] = th"
  by (simp add: push_all_def texts_of_def)

lemma push_all_append: "push_all (push_all th a) b = push_all th (a @ b)"
  by (simp add: push_all_def texts_of_append)

lemma dedup_append:
  "dedup seen (a @ b) = dedup seen a @ dedup (seen \<union> norm_key ` set a) b"
  by (induction a arbitrary: seen) (simp_all add: insert_absorb)

lemma visit_stop_eq:
  "visit_stop r (seen, th) =
     (seen \<union> norm_key ` set (entry_of Stop r), push_all th (dedup seen (entry_of Stop r)))"
  by (cases th) (simp add: visit_stop_def entry_of_def push_all_def texts_of_def norm_key_def Let_def insert_absorb)

lemma visit_start_eq:
  "visit_start r (seen, th) =
     (seen \<union> norm_key ` set (entry_of Start r), push_all th (dedup seen (entry_of Start r)))"
  by (cases th) (simp add: visit_start_def entry_of_def push_all_def texts_of_def norm_key_def Let_def insert_absorb)

lemma visit_continue_eq:
  "visit_continue r (seen, th) =
     (seen \<union> norm_key ` set (entry_of Continue r), push_all th (dedup seen (entry_of Continue r)))"
  by (cases th) (simp add: visit_continue_def entry_of_def push_all_def texts_of_def norm_key_def Let_def insert_absorb)

lemma visit_eq:
  "visit (seen, th) r =
     (seen \<union> norm_key ` set (entries_of r), push_all th (dedup seen (entries_of r)))"
  by (simp add: visit_def visit_stop_eq visit_start_eq visit_continue_eq entries_of_eq
      push_all_append dedup_append image_Un Un_assoc)

lemma foldl_visit:
  "foldl visit (seen, th) rs =
     (seen \<union> norm_key ` set (entries rs), push_all th (dedup seen (entries rs)))"
proof (induction rs arbitrary: seen th)
  case Nil
  show ?case by (simp add: entries_def push_all_Nil)
next
  case (Cons r rs)
  have e: "entries (r # rs) = entries_of r @ entries rs"
    by (simp add: entries_def)
  show ?case
    by (simp add: visit_eq Cons.IH e push_all_append dedup_append image_Un Un_assoc)
qed

lemma feedbackThemes_dedup:
  "feedbackThemes rs =
     \<lparr> stopDoing = texts_of Stop (dedup {} (entries rs)),
       startDoing = texts_of Start (dedup {} (entries rs)),
       continueDoing = texts_of Continue (dedup {} (entries rs)) \<rparr>"
  by (simp add: feedbackThemes_def foldl_visit push_all_def)





section \<open>White space in the feedback fields\<close>

lemma is_space_lower_char: "is_space (lower_char c) = is_space c"
proof -
  have "of_char (char_of (of_char c + 32 :: nat)) = (of_char c + 32 :: nat)"
    if "(of_char c :: nat) \<le> 90"
    using that by simp
  then show ?thesis
    by (auto simp: is_space_def lower_char_def Let_def)
qed

lemma dropWhile_toLowerCase:
  "dropWhile is_space (toLowerCase s) = toLowerCase (dropWhile is_space s)"
  by (simp add: toLowerCase_def dropWhile_map comp_def is_space_lower_char)

lemma trim_toLowerCase: "trim (toLowerCase s) = toLowerCase (trim s)"
proof -
  have r: "rev (toLowerCase s) = toLowerCase (rev s)" for s
    by (simp add: toLowerCase_def rev_map)
  show ?thesis
    by (simp add: trim_def dropWhile_toLowerCase r)
qed

lemma norm_key_empty_iff: "norm_key e = [] \<longleftrightarrow> trim (snd e) = []"
  by (simp add: norm_key_def trim_toLowerCase) (simp add: toLowerCase_def)

lemma dedup_filter_key:
  "filter (\<lambda>e. norm_key e = k) (dedup seen es) =
     (if k \<in> seen then []
      else case find (\<lambda>e. norm_key e = k) es of None \<Rightarrow> [] | Some e \<Rightarrow> [e])"
  by (induction es arbitrary: seen) auto

lemma count_list_texts_of:
  "count_list (texts_of p ks) [] = length (filter (\<lambda>e. fst e = p) (filter (\<lambda>e. norm_key e = []) ks))"
  by (induction ks) (auto simp: texts_of_def norm_key_empty_iff)

lemma themes_of_feedbackThemes:
  "themes_of p (feedbackThemes rs) = texts_of p (dedup {} (entries rs))"
  by (cases p) (simp_all add: feedbackThemes_dedup)

lemma count_blank_themes:
  "count_list (themes_of p (feedbackThemes rs)) [] =
     (case find (\<lambda>e. trim (snd e) = []) (entries rs) of None \<Rightarrow> 0
      | Some e \<Rightarrow> if fst e = p then 1 else 0)"
proof -
  have "find (\<lambda>e. norm_key e = []) (entries rs) = find (\<lambda>e. trim (snd e) = []) (entries rs)"
    by (simp add: norm_key_empty_iff)
  then show ?thesis
    by (simp add: themes_of_feedbackThemes count_list_texts_of dedup_filter_key split: option.splits)
qed

lemma in_entries:
  "(p, s) \<in> set (entries rs) \<longleftrightarrow> (\<exists>r\<in>set rs. truthy (field_of p r) \<and> field_of p r = Some s)"
proof -
  have "(p, s) \<in> set (entries_of r) \<longleftrightarrow> truthy (field_of p r) \<and> field_of p r = Some s" for r
    by (cases p; cases "field_of p r") (auto simp: entries_of_def)
  then show ?thesis
    by (simp add: entries_def)
qed

lemma whitespace_only_iff_find:
  "(\<exists>r\<in>set rs. \<exists>p. whitespace_only (field_of p r)) \<longleftrightarrow>
     find (\<lambda>e. trim (snd e) = []) (entries rs) \<noteq> None"
proof -
  have "(\<exists>r\<in>set rs. \<exists>p. whitespace_only (field_of p r))
      \<longleftrightarrow> (\<exists>p s. (p, s) \<in> set (entries rs) \<and> trim s = [])"
    unfolding in_entries whitespace_only_def by (metis option.sel truthy.elims(2))
  also have "\<dots> \<longleftrightarrow> find (\<lambda>e. trim (snd e) = []) (entries rs) \<noteq> None"
    by (auto simp: find_None_iff)
  finally show ?thesis .
qed




section \<open>Running the extraction on its own output\<close>

lemma last_dropWhile: "dropWhile P xs \<noteq> [] \<Longrightarrow> last (dropWhile P xs) = last xs"
  by (induction xs) (auto split: if_splits)

lemma trim_idem: "trim (trim s) = trim s"
proof -
  define a where "a = dropWhile is_space s"
  define b where "b = dropWhile is_space (rev a)"
  have t: "trim s = rev b" by (simp add: trim_def a_def b_def)
  have f1: "dropWhile is_space (rev b) = rev b"
  proof (cases "b = []")
    case True then show ?thesis by simp
  next
    case False
    then have "rev a \<noteq> []" by (auto simp: b_def)
    then have "a \<noteq> []" by simp
    then have "\<not> is_space (hd a)" unfolding a_def by (rule hd_dropWhile)
    moreover have "last b = last (rev a)" using False unfolding b_def by (rule last_dropWhile)
    moreover have "last (rev a) = hd a" using \<open>a \<noteq> []\<close> by (simp add: last_rev)
    moreover have "hd (rev b) = last b" using False by (simp add: hd_rev)
    ultimately have "\<not> is_space (hd (rev b))" by simp
    then show ?thesis by (simp add: dropWhile_eq_self_iff)
  qed
  have f2: "dropWhile is_space b = b" by (simp add: b_def)
  have "trim (trim s) = trim (rev b)"
    by (simp only: t)
  also have "\<dots> = rev (dropWhile is_space (rev (dropWhile is_space (rev b))))"
    by (simp only: trim_def)
  also have "\<dots> = rev (dropWhile is_space b)" by (simp only: f1 rev_rev_ident)
  also have "\<dots> = rev b" by (simp only: f2)
  finally show ?thesis by (simp only: t)
qed

lemma norm_key_trim: "norm_key (p, trim s) = norm_key (q, s)"
  by (simp add: norm_key_def trim_toLowerCase trim_idem)

lemma keys_dedup: "norm_key ` set (dedup seen es) = norm_key ` set es - seen"
  by (induction es arbitrary: seen) auto

lemma distinct_keys_dedup: "distinct (map norm_key (dedup seen es))"
proof (induction es arbitrary: seen)
  case Nil show ?case by simp
next
  case (Cons e es)
  have "norm_key e \<notin> norm_key ` set (dedup (insert (norm_key e) seen) es)"
    by (simp add: keys_dedup)
  then show ?case by (simp add: Cons.IH)
qed

lemma dedup_distinct_id:
  "distinct (map norm_key es) \<Longrightarrow> norm_key ` set es \<inter> seen = {} \<Longrightarrow> dedup seen es = es"
proof (induction es arbitrary: seen)
  case Nil show ?case by simp
next
  case (Cons e es)
  from Cons.prems have "norm_key e \<notin> seen" and "distinct (map norm_key es)"
    and "norm_key ` set es \<inter> insert (norm_key e) seen = {}"
    by auto
  then show ?case by (simp add: Cons.IH)
qed

lemma distinct_three_filters:
  assumes "distinct (map f ks)"
    and "\<And>x. \<not> (A x \<and> B x)" "\<And>x. \<not> (A x \<and> C x)" "\<And>x. \<not> (B x \<and> C x)"
  shows "distinct (map f (filter A ks) @ map f (filter B ks) @ map f (filter C ks))"
proof -
  have inj: "inj_on f (set ks)" using assms(1) by (simp add: distinct_map)
  have d: "distinct (map f (filter P ks))" for P
    using assms(1) by (rule distinct_map_filter)
  have disj: "f ` set (filter P ks) \<inter> f ` set (filter Q ks) = {}" if "\<And>x. \<not> (P x \<and> Q x)" for P Q
  proof (rule ccontr)
    assume "f ` set (filter P ks) \<inter> f ` set (filter Q ks) \<noteq> {}"
    then obtain x y where "x \<in> set ks" "P x" "y \<in> set ks" "Q y" "f x = f y" by auto
    with inj have "x = y" by (auto dest: inj_onD)
    with \<open>P x\<close> \<open>Q y\<close> that show False by blast
  qed
  show ?thesis
    using d disj [OF assms(2)] disj [OF assms(3)] disj [OF assms(4)]
    by (simp add: Int_Un_distrib)
qed

lemma entries_rebuild:
  "entries (rebuild th) =
     tagged Stop (stopDoing th) @ tagged Start (startDoing th) @ tagged Continue (continueDoing th)"
proof -
  have a: "concat (map (\<lambda>s. entries_of ((blank [])\<lparr>stop_doing := Some s\<rparr>)) ts) = tagged Stop ts" for ts
    by (induction ts) (simp_all add: entries_of_def blank_def tagged_def)
  have b: "concat (map (\<lambda>s. entries_of ((blank [])\<lparr>start_doing := Some s\<rparr>)) ts) = tagged Start ts" for ts
    by (induction ts) (simp_all add: entries_of_def blank_def tagged_def)
  have c: "concat (map (\<lambda>s. entries_of ((blank [])\<lparr>continue_doing := Some s\<rparr>)) ts) = tagged Continue ts" for ts
    by (induction ts) (simp_all add: entries_of_def blank_def tagged_def)
  show ?thesis
    by (simp add: entries_def rebuild_def comp_def a b c)
qed

lemma keys_tagged_texts:
  "map norm_key (tagged p (texts_of p ks))
     = map norm_key (filter (\<lambda>e. fst e = p \<and> trim (snd e) \<noteq> []) ks)"
  by (induction ks) (auto simp: tagged_def texts_of_def norm_key_trim [of p _ p] intro: norm_key_trim)

lemma texts_of_tagged:
  "texts_of q (tagged p (texts_of p ks)) =
     (if q = p then filter (\<lambda>t. t \<noteq> []) (texts_of p ks) else [])"
  by (induction ks) (auto simp: tagged_def texts_of_def trim_idem)

lemma dedup_twice:
  "feedbackThemes (rebuild (feedbackThemes rs)) =
     \<lparr> stopDoing = filter (\<lambda>t. t \<noteq> []) (stopDoing (feedbackThemes rs)),
       startDoing = filter (\<lambda>t. t \<noteq> []) (startDoing (feedbackThemes rs)),
       continueDoing = filter (\<lambda>t. t \<noteq> []) (continueDoing (feedbackThemes rs)) \<rparr>"
proof -
  define ks where "ks = dedup {} (entries rs)"
  define es where "es = tagged Stop (texts_of Stop ks) @ tagged Start (texts_of Start ks)
      @ tagged Continue (texts_of Continue ks)"
  have th: "feedbackThemes rs = \<lparr> stopDoing = texts_of Stop ks, startDoing = texts_of Start ks,
      continueDoing = texts_of Continue ks \<rparr>"
    by (simp add: feedbackThemes_dedup ks_def)
  have e: "entries (rebuild (feedbackThemes rs)) = es"
    by (simp add: entries_rebuild th es_def)
  have "distinct (map norm_key es)"
    unfolding es_def map_append keys_tagged_texts
    by (rule distinct_three_filters) (auto simp: ks_def distinct_keys_dedup)
  then have d: "dedup {} es = es"
    by (rule dedup_distinct_id) simp
  show ?thesis
    unfolding feedbackThemes_dedup [of "rebuild (feedbackThemes rs)"] e d
    by (simp add: th es_def texts_of_append texts_of_tagged)
qed

lemma dedup_idempotent_without_blanks:
  assumes "\<not> (\<exists>r\<in>set rs. \<exists>p. whitespace_only (field_of p r))"
  shows "feedbackThemes (rebuild (feedbackThemes rs)) = feedbackThemes rs"
proof -
  from assms have "\<not> find (\<lambda>e. trim (snd e) = []) (entries rs) \<noteq> None"
    unfolding whitespace_only_iff_find .
  then have "find (\<lambda>e. trim (snd e) = []) (entries rs) = None"
    by blast
  then have "count_list (themes_of p (feedbackThemes rs)) [] = 0" for p
    by (simp add: count_blank_themes)
  then have "[] \<notin> set (themes_of p (feedbackThemes rs))" for p
    by (simp add: count_list_0_iff)
  from this [of Stop] this [of Start] this [of Continue]
  have "filter (\<lambda>t. t \<noteq> []) (stopDoing (feedbackThemes rs)) = stopDoing (feedbackThemes rs)"
    and "filter (\<lambda>t. t \<noteq> []) (startDoing (feedbackThemes rs)) = startDoing (feedbackThemes rs)"
    and "filter (\<lambda>t. t \<noteq> []) (continueDoing (feedbackThemes rs)) = continueDoing (feedbackThemes rs)"
    by (auto simp: filter_id_conv)
  then show ?thesis
    by (simp add: dedup_twice)
qed

text \<open>
  C9: the code at a failing input. The first extraction emits the empty string for Ann's
  white-space-only start_doing; in the responses built from that output the field is the
  empty string, which is falsy, so the second extraction drops the entry: the two results
  differ. By \<open>dedup_twice\<close> this is the only difference there can be, and by
  \<open>dedup_idempotent_without_blanks\<close> the extraction is idempotent on every input without a
  white-space-only field.
\<close>

theorem dedup_twice_blank:
  "feedbackThemes blanks = \<lparr> stopDoing = [], startDoing = [[]], continueDoing = [''Listening''] \<rparr>
   \<and> feedbackThemes (rebuild (feedbackThemes blanks))
       = \<lparr> stopDoing = [], startDoing = [], continueDoing = [''Listening''] \<rparr>"
  by code_simp

end
